theory Spec2Isabelle
  imports Complex_Main
begin

section \<open>The element locator and the typing tool of server.py\<close>

text \<open>
  The development embeds three pieces of \<^verbatim>\<open>server.py\<close>:
  \<^item> \<^verbatim>\<open>get_center_point\<close> (lines 13-18),
  \<^item> \<^verbatim>\<open>extract_elements\<close> with its closure \<^verbatim>\<open>traverse\<close> (lines 20-57) and the
    wrapper \<^verbatim>\<open>get_ui_elements\<close> (lines 59-67),
  \<^item> \<^verbatim>\<open>type_text\<close> (lines 153-171).
  Python exceptions are values of the type \<open>error\<close>; a function that may raise returns
  \<open>error + 'a\<close> with \<open>Inl\<close> for the exception.
\<close>

subsection \<open>Python values\<close>

datatype error = KeyError | ValueError | IndexError | OverflowError | RecursionError

text \<open>
  The built-in \<^verbatim>\<open>float\<close> and the addition of an \<^verbatim>\<open>int\<close> and a \<^verbatim>\<open>float\<close> belong to the
  Python runtime, not to the program. They are parameters of the model: \<open>'f\<close> is the type
  of float values, \<open>to_float s\<close> is \<^verbatim>\<open>float(s)\<close> (\<open>None\<close> when it raises ValueError) and
  \<open>add_int i x\<close> is \<^verbatim>\<open>i + x\<close> for an int \<open>i\<close> and a float \<open>x\<close> (\<open>None\<close> when the int is
  too large to convert and Python raises OverflowError). Every general theorem below
  holds for all such operations, so none depends on how binary64 rounds.
\<close>

record 'f float_ops =
  to_float :: "string \<Rightarrow> 'f option"
  add_int :: "int \<Rightarrow> 'f \<Rightarrow> 'f option"

text \<open>
  \<^verbatim>\<open>str.split(sep)\<close> for a non-empty separator: the string is scanned from the left,
  every occurrence of \<open>sep\<close> ends a piece and the scan resumes behind it; the result
  always has at least one piece. Both calls in the program pass a literal, non-empty
  separator.
\<close>

function split_from :: "string \<Rightarrow> string \<Rightarrow> string \<Rightarrow> string list" where
  "split_from sep cur [] = [cur]"
| "split_from sep cur (c # cs) =
     (if sep \<noteq> [] \<and> take (length sep) (c # cs) = sep
      then cur # split_from sep [] (drop (length sep) (c # cs))
      else split_from sep (cur @ [c]) cs)"
  by pat_completeness auto
termination
  by (relation "measure (\<lambda>(sep, cur, s). length s)") auto

definition py_split :: "string \<Rightarrow> string \<Rightarrow> string list" where
  "py_split sep s = split_from sep [] s"

subsection \<open>The accessibility tree and the located elements\<close>

text \<open>
  A node is the dict the tree provider returns. A key that the program reads with
  \<^verbatim>\<open>node.get(k)\<close> is an option (\<open>None\<close>: the key is absent); \<open>visible_bbox\<close> is \<open>None\<close>
  when \<^verbatim>\<open>'visible_bbox' in node\<close> is false, and otherwise the list of box coordinates
  (Python ints) as the provider gave it, of whatever length; \<open>children\<close> is
  \<^verbatim>\<open>node.get('children', [])\<close>.
\<close>

datatype node = Node
  (role: "string option")
  (visible_bbox: "int list option")
  (node_description: "string option")
  (node_role_description: "string option")
  (absolute_position: "string option")
  (children: "node list")

text \<open>The dict appended to \<^verbatim>\<open>buttons\<close> or \<^verbatim>\<open>text_areas\<close>.\<close>

record 'f element =
  center :: "'f \<times> 'f"
  description :: "string option"
  role_description :: "string option"

subsection \<open>get_center_point\<close>

text \<open>
  \<^verbatim>\<open>x1, y1, x2, y2 = bbox\<close> raises ValueError unless the box has exactly four entries;
  \<^verbatim>\<open>//\<close> on Python ints is floor division, as \<open>div\<close> on \<open>int\<close> is.
\<close>

fun get_center_point :: "int list \<Rightarrow> error + (int \<times> int)" where
  "get_center_point [x1, y1, x2, y2] = Inr ((x1 + x2) div 2, (y1 + y2) div 2)"
| "get_center_point _ = Inl ValueError"

subsection \<open>extract_elements\<close>

text \<open>
  Lines 35-40 and 44-49 build the same dict: the center of the box, each coordinate
  added to the window offset, and the two descriptions of the node.
\<close>

definition make_element ::
  "'f float_ops \<Rightarrow> 'f \<Rightarrow> 'f \<Rightarrow> int list \<Rightarrow> string option \<Rightarrow> string option \<Rightarrow> error + 'f element" where
  "make_element F window_x window_y bbox d rd =
     (case get_center_point bbox of
        Inl e \<Rightarrow> Inl e
      | Inr c \<Rightarrow>
          (case add_int F (fst c) window_x of
             None \<Rightarrow> Inl OverflowError
           | Some x \<Rightarrow>
               (case add_int F (snd c) window_y of
                  None \<Rightarrow> Inl OverflowError
                | Some y \<Rightarrow> Inr \<lparr>center = (x, y), description = d, role_description = rd\<rparr>)))"

text \<open>
  The closure \<^verbatim>\<open>traverse\<close> appends to the two lists of the enclosing call; the model
  passes the pair \<open>(buttons, text_areas)\<close> through. \<open>traverse_children\<close> is the
  \<^verbatim>\<open>for child in children\<close> loop. An exception leaves the loop and the recursion.
\<close>

fun traverse ::
  "'f float_ops \<Rightarrow> 'f \<Rightarrow> 'f \<Rightarrow> node \<Rightarrow> 'f element list \<times> 'f element list
     \<Rightarrow> error + ('f element list \<times> 'f element list)"
and traverse_children ::
  "'f float_ops \<Rightarrow> 'f \<Rightarrow> 'f \<Rightarrow> node list \<Rightarrow> 'f element list \<times> 'f element list
     \<Rightarrow> error + ('f element list \<times> 'f element list)" where
  "traverse F window_x window_y (Node r bb d rd ap cs) (buttons, text_areas) =
     (if r \<in> {Some ''AXButton'', Some ''AXMenuButton''} \<and> bb \<noteq> None then
        (case make_element F window_x window_y (the bb) d rd of
           Inl e \<Rightarrow> Inl e
         | Inr el \<Rightarrow> traverse_children F window_x window_y cs (buttons @ [el], text_areas))
      else if r = Some ''AXTextArea'' \<and> bb \<noteq> None then
        (case make_element F window_x window_y (the bb) d rd of
           Inl e \<Rightarrow> Inl e
         | Inr el \<Rightarrow> traverse_children F window_x window_y cs (buttons, text_areas @ [el]))
      else traverse_children F window_x window_y cs (buttons, text_areas))"
| "traverse_children F window_x window_y [] acc = Inr acc"
| "traverse_children F window_x window_y (child # rest) acc =
     (case traverse F window_x window_y child acc of
        Inl e \<Rightarrow> Inl e
      | Inr acc' \<Rightarrow> traverse_children F window_x window_y rest acc')"

text \<open>
  Lines 28-30. \<^verbatim>\<open>tree['absolute_position']\<close> raises KeyError when the key is absent;
  \<^verbatim>\<open>float\<close> raises ValueError; \<^verbatim>\<open>window_absolute_position[1]\<close> raises IndexError when
  the string has no comma. The first component is converted before the second is read.
\<close>

definition window_origin :: "'f float_ops \<Rightarrow> node \<Rightarrow> error + ('f \<times> 'f)" where
  "window_origin F tree =
     (case absolute_position tree of
        None \<Rightarrow> Inl KeyError
      | Some s \<Rightarrow>
          (case py_split '','' s of
             [] \<Rightarrow> Inl IndexError
           | c0 # rest \<Rightarrow>
               (case to_float F c0 of
                  None \<Rightarrow> Inl ValueError
                | Some window_x \<Rightarrow>
                    (case rest of
                       [] \<Rightarrow> Inl IndexError
                     | c1 # _ \<Rightarrow>
                         (case to_float F c1 of
                            None \<Rightarrow> Inl ValueError
                          | Some window_y \<Rightarrow> Inr (window_x, window_y))))))"

definition extract_elements ::
  "'f float_ops \<Rightarrow> node \<Rightarrow> error + ('f element list \<times> 'f element list)" where
  "extract_elements F tree =
     (case window_origin F tree of
        Inl e \<Rightarrow> Inl e
      | Inr (window_x, window_y) \<Rightarrow> traverse F window_x window_y tree ([], []))"

definition get_ui_elements ::
  "'f float_ops \<Rightarrow> node \<Rightarrow> error + ('f element list \<times> 'f element list)" where
  "get_ui_elements F tree_json = extract_elements F tree_json"

subsection \<open>The recursion limit of the interpreter\<close>

text \<open>
  \<open>traverse\<close> above is the traversal on a call stack without bound. CPython bounds
  the stack (\<^verbatim>\<open>sys.getrecursionlimit()\<close>, 1000 unless changed, and the program does not
  change it): a call of a Python function that would exceed the bound raises
  RecursionError. \<open>traverse_limited\<close> is the same traversal with \<open>frames\<close>, the number
  of further nested calls the interpreter still allows. Calling \<^verbatim>\<open>traverse\<close> takes one
  frame for the duration of the call, and so does calling \<^verbatim>\<open>get_center_point\<close> from
  inside it; the loop over the children runs inside the frame of the parent.
\<close>

fun traverse_limited ::
  "'f float_ops \<Rightarrow> 'f \<Rightarrow> 'f \<Rightarrow> nat \<Rightarrow> node \<Rightarrow> 'f element list \<times> 'f element list
     \<Rightarrow> error + ('f element list \<times> 'f element list)"
and traverse_children_limited ::
  "'f float_ops \<Rightarrow> 'f \<Rightarrow> 'f \<Rightarrow> nat \<Rightarrow> node list \<Rightarrow> 'f element list \<times> 'f element list
     \<Rightarrow> error + ('f element list \<times> 'f element list)" where
  "traverse_limited F window_x window_y 0 n acc = Inl RecursionError"
| "traverse_limited F window_x window_y (Suc frames) (Node r bb d rd ap cs) (buttons, text_areas) =
     (if r \<in> {Some ''AXButton'', Some ''AXMenuButton''} \<and> bb \<noteq> None then
        (if frames = 0 then Inl RecursionError
         else
           (case make_element F window_x window_y (the bb) d rd of
              Inl e \<Rightarrow> Inl e
            | Inr el \<Rightarrow>
                traverse_children_limited F window_x window_y frames cs
                  (buttons @ [el], text_areas)))
      else if r = Some ''AXTextArea'' \<and> bb \<noteq> None then
        (if frames = 0 then Inl RecursionError
         else
           (case make_element F window_x window_y (the bb) d rd of
              Inl e \<Rightarrow> Inl e
            | Inr el \<Rightarrow>
                traverse_children_limited F window_x window_y frames cs
                  (buttons, text_areas @ [el])))
      else traverse_children_limited F window_x window_y frames cs (buttons, text_areas))"
| "traverse_children_limited F window_x window_y frames [] acc = Inr acc"
| "traverse_children_limited F window_x window_y frames (child # rest) acc =
     (case traverse_limited F window_x window_y frames child acc of
        Inl e \<Rightarrow> Inl e
      | Inr acc' \<Rightarrow> traverse_children_limited F window_x window_y frames rest acc')"

text \<open>
  \<^verbatim>\<open>extract_elements\<close> when \<open>frames\<close> nested calls are still allowed inside its body.
\<close>

definition extract_elements_limited ::
  "'f float_ops \<Rightarrow> nat \<Rightarrow> node \<Rightarrow> error + ('f element list \<times> 'f element list)" where
  "extract_elements_limited F frames tree =
     (case window_origin F tree of
        Inl e \<Rightarrow> Inl e
      | Inr (window_x, window_y) \<Rightarrow> traverse_limited F window_x window_y frames tree ([], []))"

subsection \<open>type_text\<close>

text \<open>
  The two pyautogui calls are the only effects of \<^verbatim>\<open>type_text\<close>. The model records
  them in a trace. \<open>raises tr e\<close> says whether the call \<open>e\<close>, made after the calls
  \<open>tr\<close>, raises (\<open>Some msg\<close>, with \<open>msg\<close> the text of the exception) or returns; the
  \<^verbatim>\<open>except\<close> clause turns the exception into the returned string. The result is the
  returned string together with the calls that were carried out.
\<close>

datatype event = Typewrite string | Press string

text \<open>The body of \<^verbatim>\<open>for i, line in enumerate(lines)\<close>, with \<open>n = len(lines)\<close>.\<close>

fun type_loop ::
  "(event list \<Rightarrow> event \<Rightarrow> string option) \<Rightarrow> bool \<Rightarrow> nat \<Rightarrow> nat \<Rightarrow> string list \<Rightarrow> event list
     \<Rightarrow> event list \<times> string option" where
  "type_loop raises press_enter_after n i [] tr = (tr, None)"
| "type_loop raises press_enter_after n i (line # rest) tr =
     (case raises tr (Typewrite line) of
        Some msg \<Rightarrow> (tr, Some msg)
      | None \<Rightarrow>
          (if int i < int n - 1 \<or> press_enter_after then
             (case raises (tr @ [Typewrite line]) (Press ''enter'') of
                Some msg \<Rightarrow> (tr @ [Typewrite line], Some msg)
              | None \<Rightarrow>
                  type_loop raises press_enter_after n (Suc i) rest
                    (tr @ [Typewrite line] @ [Press ''enter'']))
           else type_loop raises press_enter_after n (Suc i) rest (tr @ [Typewrite line])))"

text \<open>The separator \<^verbatim>\<open>'\\n'\<close> of line 163: a backslash followed by the letter n.\<close>

definition backslash_n :: string where
  "backslash_n = [CHR 0x5C, CHR ''n'']"

definition type_text ::
  "(event list \<Rightarrow> event \<Rightarrow> string option) \<Rightarrow> string \<Rightarrow> bool \<Rightarrow> string \<times> event list" where
  "type_text raises text press_enter_after =
     (let lines = py_split backslash_n text in
      case type_loop raises press_enter_after (length lines) 0 lines [] of
        (tr, None) \<Rightarrow> (''Success'', tr)
      | (tr, Some msg) \<Rightarrow> (''Error: '' @ msg, tr))"

subsection \<open>Notions the properties are stated with\<close>

text \<open>The nodes of a tree in pre-order: a node, then its children's subtrees in order.\<close>

fun preorder :: "node \<Rightarrow> node list" where
  "preorder (Node r bb d rd ap cs) = Node r bb d rd ap cs # concat (map preorder cs)"

definition qualifies_button :: "node \<Rightarrow> bool" where
  "qualifies_button n \<longleftrightarrow>
     role n \<in> {Some ''AXButton'', Some ''AXMenuButton''} \<and> visible_bbox n \<noteq> None"

definition qualifies_text_area :: "node \<Rightarrow> bool" where
  "qualifies_text_area n \<longleftrightarrow> role n = Some ''AXTextArea'' \<and> visible_bbox n \<noteq> None"

text \<open>\<open>emitted F wx wy n e\<close>: \<open>e\<close> is the element built from the node \<open>n\<close>.\<close>

definition emitted :: "'f float_ops \<Rightarrow> 'f \<Rightarrow> 'f \<Rightarrow> node \<Rightarrow> 'f element \<Rightarrow> bool" where
  "emitted F wx wy n e =
     (case visible_bbox n of
        None \<Rightarrow> False
      | Some bb \<Rightarrow> make_element F wx wy bb (node_description n) (node_role_description n) = Inr e)"

text \<open>
  Carrying out a list of calls in order, up to the first that raises; and the calls
  the typing tool is meant to make for the pieces of its text.
\<close>

fun perform ::
  "(event list \<Rightarrow> event \<Rightarrow> string option) \<Rightarrow> event list \<Rightarrow> event list
     \<Rightarrow> event list \<times> string option" where
  "perform raises [] tr = (tr, None)"
| "perform raises (e # es) tr =
     (case raises tr e of
        Some msg \<Rightarrow> (tr, Some msg)
      | None \<Rightarrow> perform raises es (tr @ [e]))"

definition keystrokes :: "string list \<Rightarrow> bool \<Rightarrow> event list" where
  "keystrokes segments press_enter_after =
     concat (map (\<lambda>l. [Typewrite l, Press ''enter'']) (butlast segments))
     @ [Typewrite (last segments)]
     @ (if press_enter_after then [Press ''enter''] else [])"

text \<open>
  The window offset can be read: the key is present, the string has at least two
  comma-separated components, and \<^verbatim>\<open>float\<close> accepts the first two.
\<close>

definition origin_parses :: "'f float_ops \<Rightarrow> node \<Rightarrow> bool" where
  "origin_parses F t =
     (case absolute_position t of
        None \<Rightarrow> False
      | Some s \<Rightarrow>
          (case py_split '','' s of
             c0 # c1 # _ \<Rightarrow> to_float F c0 \<noteq> None \<and> to_float F c1 \<noteq> None
           | _ \<Rightarrow> False))"

text \<open>
  The depth of a tree (a leaf has depth 1), and a box from which the element of a node
  can be built at a window offset: four entries, and sums that do not overflow.
\<close>

fun depth :: "node \<Rightarrow> nat" where
  "depth (Node r bb d rd ap cs) = Suc (foldr max (map depth cs) 0)"

definition box_ok :: "'f float_ops \<Rightarrow> 'f \<Rightarrow> 'f \<Rightarrow> node \<Rightarrow> bool" where
  "box_ok F wx wy n =
     (case visible_bbox n of
        Some [x1, y1, x2, y2] \<Rightarrow>
          add_int F ((x1 + x2) div 2) wx \<noteq> None \<and> add_int F ((y1 + y2) div 2) wy \<noteq> None
      | _ \<Rightarrow> False)"

text \<open>\<open>occurs sep s\<close>: the string \<open>sep\<close> occurs in \<open>s\<close> (\<^verbatim>\<open>sep in s\<close>).\<close>

fun occurs :: "string \<Rightarrow> string \<Rightarrow> bool" where
  "occurs sep [] = (sep = [])"
| "occurs sep (c # cs) = (take (length sep) (c # cs) = sep \<or> occurs sep cs)"

text \<open>The pieces of a split joined by the separator again (\<^verbatim>\<open>sep.join(pieces)\<close>).\<close>

fun join :: "string \<Rightarrow> string list \<Rightarrow> string" where
  "join sep [] = []"
| "join sep [x] = x"
| "join sep (x # y # ys) = x @ sep @ join sep (y # ys)"

subsection \<open>A float instance for concrete inputs\<close>

text \<open>
  For evaluating the program on concrete trees the float operations are instantiated
  with exact rational arithmetic: a float is the rational number it denotes,
  \<open>parse_decimal\<close> reads a plain decimal literal (optional sign, digits, optional
  fraction) and the sum is the exact sum. This agrees with CPython wherever the
  literal and the sum are exactly representable in binary64, as they are at every
  input used below; rounding, exponents, surrounding blanks, infinities and NaN are
  not part of the instance. An int of magnitude \<open>2 ^ 1024\<close> or more has no float and
  the sum raises.
\<close>

definition digit_of :: "char \<Rightarrow> nat option" where
  "digit_of c =
     (if c \<in> set ''0123456789''
      then Some (length (takeWhile (\<lambda>d. d \<noteq> c) ''0123456789''))
      else None)"

fun digits_value :: "nat \<Rightarrow> string \<Rightarrow> nat option" where
  "digits_value acc [] = Some acc"
| "digits_value acc (c # cs) =
     (case digit_of c of None \<Rightarrow> None | Some d \<Rightarrow> digits_value (10 * acc + d) cs)"

definition parse_unsigned :: "string \<Rightarrow> rat option" where
  "parse_unsigned s =
     (case py_split ''.'' s of
        [ip] \<Rightarrow> (if ip = [] then None else map_option of_nat (digits_value 0 ip))
      | [ip, fp] \<Rightarrow>
          (if ip = [] \<and> fp = [] then None
           else (case (digits_value 0 ip, digits_value 0 fp) of
                   (Some a, Some b) \<Rightarrow> Some (of_nat a + of_nat b / 10 ^ length fp)
                 | _ \<Rightarrow> None))
      | _ \<Rightarrow> None)"

definition parse_decimal :: "string \<Rightarrow> rat option" where
  "parse_decimal s =
     (case s of
        [] \<Rightarrow> None
      | c # r \<Rightarrow>
          (if c = CHR ''-'' then map_option uminus (parse_unsigned r)
           else if c = CHR ''+'' then parse_unsigned r
           else parse_unsigned s))"

definition exact_float :: "rat float_ops" where
  "exact_float =
     \<lparr>to_float = parse_decimal,
      add_int = (\<lambda>i x. if \<bar>i\<bar> < 2 ^ 1024 then Some (of_int i + x) else None)\<rparr>"

subsection \<open>Example trees\<close>

text \<open>
  The example of the specification: a root at offset (100, 200) with a button with box
  (0, 0, 10, 10) and a text area with box (20, 20, 40, 40).
\<close>

definition example_tree :: node where
  "example_tree =
     Node None None None None (Some ''100,200'')
       [Node (Some ''AXButton'') (Some [0, 0, 10, 10]) None None None [],
        Node (Some ''AXTextArea'') (Some [20, 20, 40, 40]) None None None []]"

text \<open>A window at a half-point offset with one button with box (0, 0, 2, 2).\<close>

definition half_point_tree :: node where
  "half_point_tree =
     Node (Some ''AXWindow'') None None None (Some ''0.5,0.5'')
       [Node (Some ''AXButton'') (Some [0, 0, 2, 2]) None None None []]"

text \<open>
  A tree with nesting: an unrecognised container without a box wraps a button that
  itself contains a text area, and a text area without a box wraps a menu button.
\<close>

definition nested_tree :: node where
  "nested_tree =
     Node (Some ''AXWindow'') (Some [0, 0, 800, 600]) None None (Some ''100,200'')
       [Node (Some ''AXGroup'') None None None None
          [Node (Some ''AXButton'') (Some [0, 0, 10, 10]) (Some ''Close'') (Some ''button'') None
             [Node (Some ''AXTextArea'') (Some [20, 20, 40, 40]) None None None []]],
        Node (Some ''AXTextArea'') None None None None
          [Node (Some ''AXMenuButton'') (Some [1, 2, 4, 7]) None None None []]]"

text \<open>Trees whose window offset is absent, not a number, or has further components.\<close>

definition no_origin_tree :: node where
  "no_origin_tree = Node (Some ''AXWindow'') None None None None []"

definition bad_origin_tree :: node where
  "bad_origin_tree = Node (Some ''AXWindow'') None None None (Some ''abc,200'') []"

definition short_origin_tree :: node where
  "short_origin_tree = Node (Some ''AXWindow'') None None None (Some ''100'') []"

definition long_origin_tree :: node where
  "long_origin_tree =
     Node (Some ''AXWindow'') None None None (Some ''100,200,300,x'')
       [Node (Some ''AXButton'') (Some [0, 0, 10, 10]) None None None []]"

text \<open>
  A tree of depth 1002: a window at offset (0, 0) around 1000 nested containers around
  one button.
\<close>

fun nest :: "nat \<Rightarrow> node \<Rightarrow> node" where
  "nest 0 t = t"
| "nest (Suc k) t = Node (Some ''AXGroup'') None None None None [nest k t]"

definition deep_tree :: node where
  "deep_tree =
     Node (Some ''AXWindow'') None None None (Some ''0,0'')
       [nest 1000 (Node (Some ''AXButton'') (Some [0, 0, 2, 2]) None None None [])]"

section \<open>Properties\<close>

subsection \<open>What a traversal appends\<close>

text \<open>
  A traversal that returns has appended, to each list, the elements of the qualifying
  nodes of the subtree, in pre-order. The induction follows the recursion of
  \<open>traverse\<close> and \<open>traverse_children\<close>.
\<close>

lemma traverse_appends:
  "traverse F wx wy t acc = Inr acc' \<Longrightarrow>
     \<exists>eb et. fst acc' = fst acc @ eb \<and> snd acc' = snd acc @ et
       \<and> list_all2 (emitted F wx wy) (filter qualifies_button (preorder t)) eb
       \<and> list_all2 (emitted F wx wy) (filter qualifies_text_area (preorder t)) et"
  "traverse_children F wx wy cs acc = Inr acc' \<Longrightarrow>
     \<exists>eb et. fst acc' = fst acc @ eb \<and> snd acc' = snd acc @ et
       \<and> list_all2 (emitted F wx wy) (filter qualifies_button (concat (map preorder cs))) eb
       \<and> list_all2 (emitted F wx wy) (filter qualifies_text_area (concat (map preorder cs))) et"
proof (induction F wx wy t acc and F wx wy cs acc arbitrary: acc' and acc'
    rule: traverse_traverse_children.induct)
  case (1 F wx wy r bb d rd ap cs buttons text_areas)
  let ?n = "Node r bb d rd ap cs"
  show ?case
  proof (cases "r \<in> {Some ''AXButton'', Some ''AXMenuButton''} \<and> bb \<noteq> None")
    case True
    then obtain b where bb: "bb = Some b" by auto
    from True "1.prems" obtain el where
      el: "make_element F wx wy (the bb) d rd = Inr el" and
      run: "traverse_children F wx wy cs (buttons @ [el], text_areas) = Inr acc'"
      by (auto split: sum.splits)
    from "1.IH"(1)[OF True el run] obtain eb et where
      h: "fst acc' = (buttons @ [el]) @ eb" "snd acc' = text_areas @ et"
        "list_all2 (emitted F wx wy) (filter qualifies_button (concat (map preorder cs))) eb"
        "list_all2 (emitted F wx wy) (filter qualifies_text_area (concat (map preorder cs))) et"
      by auto
    have q: "qualifies_button ?n" "\<not> qualifies_text_area ?n"
      using True by (auto simp: qualifies_button_def qualifies_text_area_def)
    have e: "emitted F wx wy ?n el"
      using el bb by (simp add: emitted_def)
    show ?thesis
      using h q e by (intro exI[of _ "el # eb"] exI[of _ et]) simp
  next
    case nb: False
    show ?thesis
    proof (cases "r = Some ''AXTextArea'' \<and> bb \<noteq> None")
      case True
      then obtain b where bb: "bb = Some b" by auto
      from nb True "1.prems" obtain el where
        el: "make_element F wx wy (the bb) d rd = Inr el" and
        run: "traverse_children F wx wy cs (buttons, text_areas @ [el]) = Inr acc'"
        by (auto split: sum.splits)
      from "1.IH"(2)[OF nb True el run] obtain eb et where
        h: "fst acc' = buttons @ eb" "snd acc' = (text_areas @ [el]) @ et"
          "list_all2 (emitted F wx wy) (filter qualifies_button (concat (map preorder cs))) eb"
          "list_all2 (emitted F wx wy) (filter qualifies_text_area (concat (map preorder cs))) et"
        by auto
      have q: "\<not> qualifies_button ?n" "qualifies_text_area ?n"
        using True by (auto simp: qualifies_button_def qualifies_text_area_def)
      have e: "emitted F wx wy ?n el"
        using el bb by (simp add: emitted_def)
      show ?thesis
        using h q e by (intro exI[of _ eb] exI[of _ "el # et"]) simp
    next
      case False
      from nb False "1.prems" have
        run: "traverse_children F wx wy cs (buttons, text_areas) = Inr acc'"
        by (auto split: if_splits)
      from "1.IH"(3)[OF nb False run] obtain eb et where
        h: "fst acc' = buttons @ eb" "snd acc' = text_areas @ et"
          "list_all2 (emitted F wx wy) (filter qualifies_button (concat (map preorder cs))) eb"
          "list_all2 (emitted F wx wy) (filter qualifies_text_area (concat (map preorder cs))) et"
        by auto
      have q: "\<not> qualifies_button ?n" "\<not> qualifies_text_area ?n"
        using nb False by (auto simp: qualifies_button_def qualifies_text_area_def)
      show ?thesis
        using h q by (intro exI[of _ eb] exI[of _ et]) simp
    qed
  qed
next
  case (2 F wx wy acc)
  then show ?case by simp
next
  case (3 F wx wy child rest acc)
  from "3.prems" obtain mid where
    m1: "traverse F wx wy child acc = Inr mid" and
    m2: "traverse_children F wx wy rest mid = Inr acc'"
    by (auto split: sum.splits)
  from "3.IH"(1)[OF m1] obtain eb1 et1 where
    h1: "fst mid = fst acc @ eb1" "snd mid = snd acc @ et1"
      "list_all2 (emitted F wx wy) (filter qualifies_button (preorder child)) eb1"
      "list_all2 (emitted F wx wy) (filter qualifies_text_area (preorder child)) et1"
    by auto
  from "3.IH"(2)[OF m1 m2] obtain eb2 et2 where
    h2: "fst acc' = fst mid @ eb2" "snd acc' = snd mid @ et2"
      "list_all2 (emitted F wx wy) (filter qualifies_button (concat (map preorder rest))) eb2"
      "list_all2 (emitted F wx wy) (filter qualifies_text_area (concat (map preorder rest))) et2"
    by auto
  show ?case
    using h1 h2
    by (intro exI[of _ "eb1 @ eb2"] exI[of _ "et1 @ et2"]) (simp add: list_all2_appendI)
qed

lemma extract_elements_lists:
  assumes "extract_elements F t = Inr (bs, ts)" and "window_origin F t = Inr (wx, wy)"
  shows "list_all2 (emitted F wx wy) (filter qualifies_button (preorder t)) bs"
    and "list_all2 (emitted F wx wy) (filter qualifies_text_area (preorder t)) ts"
proof -
  from assms have "traverse F wx wy t ([], []) = Inr (bs, ts)"
    by (simp add: extract_elements_def)
  from traverse_appends(1)[OF this]
  show "list_all2 (emitted F wx wy) (filter qualifies_button (preorder t)) bs"
    and "list_all2 (emitted F wx wy) (filter qualifies_text_area (preorder t)) ts"
    by auto
qed

lemma emitted_center:
  assumes "emitted F wx wy n e"
  shows "\<exists>x1 y1 x2 y2. visible_bbox n = Some [x1, y1, x2, y2]
           \<and> add_int F ((x1 + x2) div 2) wx = Some (fst (center e))
           \<and> add_int F ((y1 + y2) div 2) wy = Some (snd (center e))"
proof -
  from assms obtain bb where bb: "visible_bbox n = Some bb"
    and m: "make_element F wx wy bb (node_description n) (node_role_description n) = Inr e"
    by (auto simp: emitted_def split: option.splits)
  from m obtain c where c: "get_center_point bb = Inr c"
    by (auto simp: make_element_def split: sum.splits)
  then obtain x1 y1 x2 y2 where b4: "bb = [x1, y1, x2, y2]"
    by (cases bb rule: get_center_point.cases) auto
  with c have "c = ((x1 + x2) div 2, (y1 + y2) div 2)" by simp
  with m c have "add_int F ((x1 + x2) div 2) wx = Some (fst (center e))"
    "add_int F ((y1 + y2) div 2) wy = Some (snd (center e))"
    by (auto simp: make_element_def split: option.splits)
  with bb b4 show ?thesis by blast
qed



lemma traverse_completes:
  "\<forall>n \<in> set (preorder t). qualifies_button n \<or> qualifies_text_area n
       \<longrightarrow> (\<exists>e. emitted F wx wy n e)
     \<Longrightarrow> \<exists>acc'. traverse F wx wy t acc = Inr acc'"
  "\<forall>n \<in> set (concat (map preorder cs)). qualifies_button n \<or> qualifies_text_area n
       \<longrightarrow> (\<exists>e. emitted F wx wy n e)
     \<Longrightarrow> \<exists>acc'. traverse_children F wx wy cs acc = Inr acc'"
proof (induction F wx wy t acc and F wx wy cs acc rule: traverse_traverse_children.induct)
  case (1 F wx wy r bb d rd ap cs buttons text_areas)
  let ?n = "Node r bb d rd ap cs"
  have sub: "\<forall>n \<in> set (concat (map preorder cs)). qualifies_button n \<or> qualifies_text_area n
       \<longrightarrow> (\<exists>e. emitted F wx wy n e)"
    using "1.prems" by simp
  have "?n \<in> set (preorder ?n)" by simp
  with "1.prems" have
    self: "qualifies_button ?n \<or> qualifies_text_area ?n \<Longrightarrow> \<exists>e. emitted F wx wy ?n e"
    by blast
  show ?case
  proof (cases "r \<in> {Some ''AXButton'', Some ''AXMenuButton''} \<and> bb \<noteq> None")
    case True
    then have "qualifies_button ?n" by (simp add: qualifies_button_def)
    with self obtain e where "emitted F wx wy ?n e" by blast
    with True have el: "make_element F wx wy (the bb) d rd = Inr e"
      by (auto simp: emitted_def)
    have "traverse F wx wy ?n (buttons, text_areas) =
        traverse_children F wx wy cs (buttons @ [e], text_areas)"
      using True el by auto
    with "1.IH"(1)[OF True el sub] show ?thesis by (simp only:)
  next
    case nb: False
    show ?thesis
    proof (cases "r = Some ''AXTextArea'' \<and> bb \<noteq> None")
      case True
      then have "qualifies_text_area ?n" by (simp add: qualifies_text_area_def)
      with self obtain e where "emitted F wx wy ?n e" by blast
      with True have el: "make_element F wx wy (the bb) d rd = Inr e"
        by (auto simp: emitted_def)
      have "traverse F wx wy ?n (buttons, text_areas) =
          traverse_children F wx wy cs (buttons, text_areas @ [e])"
        using nb True el by auto
      with "1.IH"(2)[OF nb True el sub] show ?thesis by (simp only:)
    next
      case False
      have "traverse F wx wy ?n (buttons, text_areas) =
          traverse_children F wx wy cs (buttons, text_areas)"
        using nb False by auto
      with "1.IH"(3)[OF nb False sub] show ?thesis by (simp only:)
    qed
  qed
next
  case (2 F wx wy acc)
  then show ?case by simp
next
  case (3 F wx wy child rest acc)
  from "3.prems" have
    c: "\<forall>n \<in> set (preorder child). qualifies_button n \<or> qualifies_text_area n
          \<longrightarrow> (\<exists>e. emitted F wx wy n e)" and
    r: "\<forall>n \<in> set (concat (map preorder rest)). qualifies_button n \<or> qualifies_text_area n
          \<longrightarrow> (\<exists>e. emitted F wx wy n e)"
    by auto
  from "3.IH"(1)[OF c] obtain mid where mid: "traverse F wx wy child acc = Inr mid" by blast
  from "3.IH"(2)[OF mid r] mid show ?case by simp
qed

subsection \<open>Splitting and typing\<close>

lemma split_from_nonempty: "split_from sep cur s \<noteq> []"
  by (induction sep cur s rule: split_from.induct) auto

lemma keystrokes_single:
  "keystrokes [l] pea = Typewrite l # (if pea then [Press ''enter''] else [])"
  by (simp add: keystrokes_def)

lemma keystrokes_Cons:
  "ls \<noteq> [] \<Longrightarrow> keystrokes (l # ls) pea = Typewrite l # Press ''enter'' # keystrokes ls pea"
  by (simp add: keystrokes_def)

lemma type_loop_perform:
  "ls \<noteq> [] \<Longrightarrow>
     type_loop raises pea (i + length ls) i ls tr = perform raises (keystrokes ls pea) tr"
proof (induction ls arbitrary: i tr)
  case Nil
  then show ?case by simp
next
  case (Cons l ls)
  show ?case
  proof (cases "ls = []")
    case True
    then show ?thesis
      by (simp add: keystrokes_single split: option.splits)
  next
    case False
    have "type_loop raises pea (Suc (i + length ls)) (Suc i) ls tr' =
            perform raises (keystrokes ls pea) tr'" for tr'
      using Cons.IH[OF False, of "Suc i" tr'] by simp
    then show ?thesis
      using False by (simp add: keystrokes_Cons split: option.splits)
  qed
qed

lemma type_text_perform:
  "type_text raises text pea =
     (case perform raises (keystrokes (py_split backslash_n text) pea) [] of
        (tr, None) \<Rightarrow> (''Success'', tr)
      | (tr, Some msg) \<Rightarrow> (''Error: '' @ msg, tr))"
proof -
  let ?ls = "py_split backslash_n text"
  have "?ls \<noteq> []"
    by (simp add: py_split_def split_from_nonempty)
  then have "type_loop raises pea (0 + length ?ls) 0 ?ls [] =
               perform raises (keystrokes ?ls pea) []"
    by (rule type_loop_perform)
  then show ?thesis
    unfolding type_text_def Let_def by (simp only: add_0)
qed

lemma perform_no_raise: "perform (\<lambda>_ _. None) es tr = (tr @ es, None)"
  by (induction es arbitrary: tr) auto



lemma join_split_from:
  "sep \<noteq> [] \<Longrightarrow> join sep (split_from sep cur s) = cur @ s"
proof (induction sep cur s rule: split_from.induct)
  case (1 sep cur)
  then show ?case by simp
next
  case (2 sep cur c cs)
  show ?case
  proof (cases "take (length sep) (c # cs) = sep")
    case True
    let ?rest = "split_from sep [] (drop (length sep) (c # cs))"
    obtain p ps where ps: "?rest = p # ps"
      using split_from_nonempty[of sep "[]" "drop (length sep) (c # cs)"]
      by (cases ?rest) auto
    have "join sep (cur # ?rest) = cur @ sep @ join sep ?rest"
      by (simp add: ps)
    also have "join sep ?rest = drop (length sep) (c # cs)"
      using "2.IH"(1) "2.prems" True by simp
    also have "sep @ drop (length sep) (c # cs) = c # cs"
      using append_take_drop_id[of "length sep" "c # cs"] True by simp
    finally show ?thesis
      using True "2.prems" by simp
  next
    case False
    then show ?thesis
      using "2.IH"(2) "2.prems" by simp
  qed
qed

lemma occurs_index:
  "occurs sep s \<Longrightarrow> \<exists>i \<le> length s. take (length sep) (drop i s) = sep"
proof (induction s)
  case Nil
  then show ?case by simp
next
  case (Cons c cs)
  show ?case
  proof (cases "take (length sep) (c # cs) = sep")
    case True
    then have "take (length sep) (drop 0 (c # cs)) = sep" by simp
    then show ?thesis by blast
  next
    case False
    with Cons.prems have "occurs sep cs" by simp
    from Cons.IH[OF this] obtain i where "i \<le> length cs" "take (length sep) (drop i cs) = sep"
      by blast
    then have "Suc i \<le> length (c # cs)" "take (length sep) (drop (Suc i) (c # cs)) = sep"
      by simp_all
    then show ?thesis by blast
  qed
qed

lemma occurs_prefix_index:
  assumes "sep \<noteq> []" and "occurs sep cur"
  shows "\<exists>i < length cur. take (length sep) (drop i (cur @ s)) = sep"
proof -
  from occurs_index[OF assms(2)] obtain i where
    i: "i \<le> length cur" "take (length sep) (drop i cur) = sep" by blast
  have "length (take (length sep) (drop i cur)) \<le> length (drop i cur)"
    by simp
  with i(2) have "length sep \<le> length (drop i cur)"
    by (simp only:)
  moreover from assms(1) obtain m where "length sep = Suc m"
    by (cases sep) auto
  ultimately have lt: "i < length cur" and fit: "length sep \<le> length cur - i"
    by simp_all
  from i(1) fit have "take (length sep) (drop i (cur @ s)) = take (length sep) (drop i cur)"
    by simp
  with i(2) lt show ?thesis by auto
qed

lemma split_from_no_occurrence:
  "sep \<noteq> [] \<Longrightarrow> \<forall>i < length cur. take (length sep) (drop i (cur @ s)) \<noteq> sep
     \<Longrightarrow> p \<in> set (split_from sep cur s) \<Longrightarrow> \<not> occurs sep p"
proof (induction sep cur s rule: split_from.induct)
  case (1 sep cur)
  then have "p = cur" by simp
  with occurs_prefix_index[OF "1.prems"(1), of cur "[]"] "1.prems"(2) show ?case by auto
next
  case (2 sep cur c cs)
  show ?case
  proof (cases "take (length sep) (c # cs) = sep")
    case True
    with "2.prems" have "p = cur \<or> p \<in> set (split_from sep [] (drop (length sep) (c # cs)))"
      by simp
    then show ?thesis
    proof
      assume "p = cur"
      with occurs_prefix_index[OF "2.prems"(1), of cur "c # cs"] "2.prems"(2)
      show ?thesis by auto
    next
      assume "p \<in> set (split_from sep [] (drop (length sep) (c # cs)))"
      with "2.IH"(1) "2.prems"(1) True show ?thesis by simp
    qed
  next
    case False
    have inv: "\<forall>i < length (cur @ [c]). take (length sep) (drop i ((cur @ [c]) @ cs)) \<noteq> sep"
    proof (intro allI impI)
      fix i assume "i < length (cur @ [c])"
      then consider "i < length cur" | "i = length cur" by fastforce
      then show "take (length sep) (drop i ((cur @ [c]) @ cs)) \<noteq> sep"
      proof cases
        case 1
        with "2.prems"(2) show ?thesis by simp
      next
        case 2
        with False show ?thesis by simp
      qed
    qed
    from False "2.prems"(3) have "p \<in> set (split_from sep (cur @ [c]) cs)" by simp
    with "2.IH"(2) False "2.prems"(1) inv show ?thesis by blast
  qed
qed

lemma py_split_no_occurrence:
  "sep \<noteq> [] \<Longrightarrow> p \<in> set (py_split sep s) \<Longrightarrow> \<not> occurs sep p"
  using split_from_no_occurrence[of sep "[]" s p] by (simp add: py_split_def)

subsection \<open>The recursion limit\<close>

text \<open>
  Below the limit the bounded traversal is the unbounded one; beyond it, it raises.
\<close>

lemma depth_child: "c \<in> set cs \<Longrightarrow> depth c \<le> foldr max (map depth cs) 0"
  by (induction cs) auto

lemma deep_child: "k < foldr max (map depth cs) 0 \<Longrightarrow> \<exists>c \<in> set cs. k < depth c"
  by (induction cs) (auto simp: less_max_iff_disj)

lemma traverse_limited_eq:
  "depth t < k \<Longrightarrow> traverse_limited F wx wy k t acc = traverse F wx wy t acc"
  "\<forall>c \<in> set cs. depth c < k \<Longrightarrow>
     traverse_children_limited F wx wy k cs acc = traverse_children F wx wy cs acc"
proof (induction F wx wy t acc and F wx wy cs acc arbitrary: k and k
    rule: traverse_traverse_children.induct)
  case (1 F wx wy r bb d rd ap cs buttons text_areas)
  from "1.prems" obtain k' where k: "k = Suc k'" and d: "foldr max (map depth cs) 0 < k'"
    by (cases k) auto
  have cs: "\<forall>c \<in> set cs. depth c < k'"
    using d depth_child by fastforce
  from d have nz: "k' \<noteq> 0" by simp
  show ?case
  proof (cases "r \<in> {Some ''AXButton'', Some ''AXMenuButton''} \<and> bb \<noteq> None")
    case True
    show ?thesis
    proof (cases "make_element F wx wy (the bb) d rd")
      case (Inl e)
      with True k nz show ?thesis by simp
    next
      case (Inr el)
      from "1.IH"(1)[OF True Inr cs] True k nz Inr show ?thesis by simp
    qed
  next
    case nb: False
    show ?thesis
    proof (cases "r = Some ''AXTextArea'' \<and> bb \<noteq> None")
      case True
      show ?thesis
      proof (cases "make_element F wx wy (the bb) d rd")
        case (Inl e)
        with nb True k nz show ?thesis by auto
      next
        case (Inr el)
        from "1.IH"(2)[OF nb True Inr cs] nb True k nz Inr show ?thesis by auto
      qed
    next
      case False
      from "1.IH"(3)[OF nb False cs] nb False k show ?thesis by auto
    qed
  qed
next
  case (2 F wx wy acc)
  then show ?case by simp
next
  case (3 F wx wy child rest acc)
  from "3.prems" have c: "depth child < k" and r: "\<forall>c \<in> set rest. depth c < k"
    by simp_all
  show ?case
  proof (cases "traverse F wx wy child acc")
    case (Inl e)
    with "3.IH"(1)[OF c] show ?thesis by simp
  next
    case (Inr mid)
    with "3.IH"(1)[OF c] "3.IH"(2)[OF Inr r] show ?thesis by simp
  qed
qed

lemma too_deep:
  "k < depth t \<Longrightarrow> \<exists>e. traverse_limited F wx wy k t acc = Inl e"
  "\<exists>c \<in> set cs. k < depth c \<Longrightarrow> \<exists>e. traverse_children_limited F wx wy k cs acc = Inl e"
proof (induction F wx wy k t acc and F wx wy k cs acc
    rule: traverse_limited_traverse_children_limited.induct)
  case (1 F wx wy n acc)
  then show ?case by simp
next
  case (2 F wx wy frames r bb d rd ap cs buttons text_areas)
  from "2.prems" have "frames < foldr max (map depth cs) 0" by simp
  then have deep: "\<exists>c \<in> set cs. frames < depth c" by (rule deep_child)
  show ?case
  proof (cases "r \<in> {Some ''AXButton'', Some ''AXMenuButton''} \<and> bb \<noteq> None")
    case qb: True
    show ?thesis
    proof (cases "frames = 0")
      case True
      with qb show ?thesis by simp
    next
      case nz: False
      show ?thesis
      proof (cases "make_element F wx wy (the bb) d rd")
        case (Inl e)
        with qb nz show ?thesis by simp
      next
        case (Inr el)
        from "2.IH"(1)[OF qb nz Inr deep] qb nz Inr show ?thesis by simp
      qed
    qed
  next
    case nb: False
    show ?thesis
    proof (cases "r = Some ''AXTextArea'' \<and> bb \<noteq> None")
      case qt: True
      show ?thesis
      proof (cases "frames = 0")
        case True
        with nb qt show ?thesis by auto
      next
        case nz: False
        show ?thesis
        proof (cases "make_element F wx wy (the bb) d rd")
          case (Inl e)
          with nb qt nz show ?thesis by auto
        next
          case (Inr el)
          from "2.IH"(2)[OF nb qt nz Inr deep] nb qt nz Inr show ?thesis by auto
        qed
      qed
    next
      case False
      from "2.IH"(3)[OF nb False deep] nb False show ?thesis by auto
    qed
  qed
next
  case (3 F wx wy frames acc)
  then show ?case by simp
next
  case (4 F wx wy frames child rest acc)
  show ?case
  proof (cases "traverse_limited F wx wy frames child acc")
    case (Inl e)
    then show ?thesis by simp
  next
    case (Inr mid)
    with "4.IH"(1) have "\<not> frames < depth child" by auto
    with "4.prems" have "\<exists>c \<in> set rest. frames < depth c" by auto
    from "4.IH"(2)[OF Inr this] Inr show ?thesis by simp
  qed
qed

lemma box_ok_emitted: "box_ok F wx wy n \<Longrightarrow> \<exists>e. emitted F wx wy n e"
  by (auto simp: box_ok_def emitted_def make_element_def split: option.splits list.splits)

lemma traverse_nest: "traverse F wx wy (nest m t) acc = traverse F wx wy t acc"
proof (induction m)
  case 0
  then show ?case by simp
next
  case (Suc m)
  then show ?case by (cases acc) (simp split: sum.splits)
qed

lemma nest_recursion_error:
  "k \<le> m \<Longrightarrow> traverse_limited F wx wy k (nest m t) acc = Inl RecursionError"
proof (induction m arbitrary: k)
  case 0
  then show ?case by simp
next
  case (Suc m)
  show ?case
  proof (cases k)
    case 0
    then show ?thesis by simp
  next
    case (Suc k')
    with Suc.prems have "k' \<le> m" by simp
    from Suc.IH[OF this] Suc show ?thesis by (cases acc) simp
  qed
qed

lemma wrapped_nest_recursion_error:
  assumes "r \<notin> {Some ''AXButton'', Some ''AXMenuButton'', Some ''AXTextArea''}"
    and "k \<le> Suc m"
  shows "traverse_limited F wx wy k (Node r bb d rd ap [nest m t]) acc = Inl RecursionError"
proof (cases k)
  case 0
  then show ?thesis by simp
next
  case (Suc k')
  with assms(2) have "k' \<le> m" by simp
  then have e: "traverse_limited F wx wy k' (nest m t) acc = Inl RecursionError"
    by (rule nest_recursion_error)
  obtain bs ts where acc: "acc = (bs, ts)" by (cases acc)
  have "traverse_limited F wx wy (Suc k') (Node r bb d rd ap [nest m t]) (bs, ts)
      = traverse_children_limited F wx wy k' [nest m t] (bs, ts)"
    using assms(1) by auto
  also have "\<dots> = Inl RecursionError"
    using e acc by simp
  finally show ?thesis using Suc acc by simp
qed

lemma traverse_wrapped_nest:
  assumes "r \<notin> {Some ''AXButton'', Some ''AXMenuButton'', Some ''AXTextArea''}"
  shows "traverse F wx wy (Node r bb d rd ap [nest m t]) acc = traverse F wx wy t acc"
proof -
  obtain bs ts where acc: "acc = (bs, ts)" by (cases acc)
  have "traverse F wx wy (Node r bb d rd ap [nest m t]) (bs, ts)
      = traverse_children F wx wy [nest m t] (bs, ts)"
    using assms by auto
  also have "\<dots> = traverse F wx wy t (bs, ts)"
    by (simp add: traverse_nest split: sum.splits)
  finally show ?thesis using acc by simp
qed

subsection \<open>The example trees, evaluated\<close>

lemmas eval_defs =
  extract_elements_def window_origin_def py_split_def make_element_def exact_float_def
  parse_decimal_def parse_unsigned_def digit_of_def qualifies_button_def
  qualifies_text_area_def emitted_def origin_parses_def

lemma half_point_result:
  "extract_elements exact_float half_point_tree =
     Inr ([\<lparr>center = (3 / 2, 3 / 2), description = None, role_description = None\<rparr>], [])"
  by (simp add: half_point_tree_def eval_defs)

lemma half_point_origin: "window_origin exact_float half_point_tree = Inr (1 / 2, 1 / 2)"
  by (simp add: half_point_tree_def eval_defs)





lemma nested_tree_origin: "window_origin exact_float nested_tree = Inr (100, 200)"
  by (simp add: nested_tree_def eval_defs)

lemma nested_tree_depth: "depth nested_tree = 4"
  by (simp add: nested_tree_def)

lemma deep_tree_origin: "window_origin exact_float deep_tree = Inr (0, 0)"
  by (simp add: deep_tree_def eval_defs)

lemma button_2_2:
  "traverse exact_float 0 0
     (Node (Some ''AXButton'') (Some [0, 0, 2, 2]) None None None []) ([], []) =
   Inr ([\<lparr>center = (1, 1), description = None, role_description = None\<rparr>], [])"
  by (simp add: make_element_def exact_float_def)

section \<open>The claims\<close>

subsection \<open>C1: the type of the center coordinates\<close>

text \<open>
  The claim C1 as written says that both center coordinates of every emitted element
  are truncated integers. The program never truncates: line 37 (and line 46) adds the
  float window offset to the integer center of the box, and the sum is a float. At a
  window offset of (0.5, 0.5) the button with box (0, 0, 2, 2) gets the center
  (1.5, 1.5), whose coordinates are not integers.
\<close>

theorem center_not_integer_counterexample:
  "extract_elements exact_float half_point_tree =
     Inr ([\<lparr>center = (3 / 2, 3 / 2), description = None, role_description = None\<rparr>], [])
   \<and> (3 / 2 :: rat) \<notin> \<int>"
  by (simp add: half_point_tree_def eval_defs)

text \<open>
  C1, amended: for every emitted element, in either output list, both center
  coordinates are floats, namely the sums (Python \<^verbatim>\<open>int + float\<close>) of the floor center
  of the box of a node of the tree and the corresponding float window offset; no
  truncation is applied.
\<close>

theorem center_is_float_sum:
  assumes "extract_elements F t = Inr (bs, ts)" and "window_origin F t = Inr (wx, wy)"
    and "e \<in> set bs \<union> set ts"
  shows "\<exists>n \<in> set (preorder t). \<exists>x1 y1 x2 y2.
           visible_bbox n = Some [x1, y1, x2, y2]
         \<and> add_int F ((x1 + x2) div 2) wx = Some (fst (center e))
         \<and> add_int F ((y1 + y2) div 2) wy = Some (snd (center e))"
proof -
  note l = extract_elements_lists[OF assms(1,2)]
  from assms(3) obtain n where n: "n \<in> set (preorder t)" and e: "emitted F wx wy n e"
  proof
    assume "e \<in> set bs"
    then obtain i where i: "i < length bs" "bs ! i = e"
      by (auto simp: in_set_conv_nth)
    let ?ns = "filter qualifies_button (preorder t)"
    from l(1) i have "emitted F wx wy (?ns ! i) e" "i < length ?ns"
      by (auto simp: list_all2_conv_all_nth)
    moreover from this have "?ns ! i \<in> set (preorder t)"
      using nth_mem[of i ?ns] by auto
    ultimately show ?thesis using that by blast
  next
    assume "e \<in> set ts"
    then obtain i where i: "i < length ts" "ts ! i = e"
      by (auto simp: in_set_conv_nth)
    let ?ns = "filter qualifies_text_area (preorder t)"
    from l(2) i have "emitted F wx wy (?ns ! i) e" "i < length ?ns"
      by (auto simp: list_all2_conv_all_nth)
    moreover from this have "?ns ! i \<in> set (preorder t)"
      using nth_mem[of i ?ns] by auto
    ultimately show ?thesis using that by blast
  qed
  from emitted_center[OF e] n show ?thesis by blast
qed

text \<open>The amended statement at the half-point window.\<close>

theorem center_is_float_sum_witness:
  "\<exists>n \<in> set (preorder half_point_tree). \<exists>x1 y1 x2 y2.
      visible_bbox n = Some [x1, y1, x2, y2]
    \<and> add_int exact_float ((x1 + x2) div 2) (1 / 2) = Some (3 / 2)
    \<and> add_int exact_float ((y1 + y2) div 2) (1 / 2) = Some (3 / 2)"
  using center_is_float_sum[OF half_point_result half_point_origin,
    of "\<lparr>center = (3 / 2, 3 / 2), description = None, role_description = None\<rparr>"]
  by simp

subsection \<open>C2: the element of a button\<close>



subsection \<open>C3: the example of the specification\<close>

text \<open>
  The claim C3 as written expects the text area with box (20, 20, 40, 40) at (130, 220).
  The center of that box is (30, 30), and the offset (100, 200) moves it to (130, 230).
\<close>

theorem example_text_area_center_counterexample:
  "extract_elements exact_float example_tree \<noteq>
     Inr ([\<lparr>center = (105, 205), description = None, role_description = None\<rparr>],
          [\<lparr>center = (130, 220), description = None, role_description = None\<rparr>])
   \<and> map center (snd (projr (extract_elements exact_float example_tree))) \<noteq> [(130, 220)]"
  by (simp add: example_tree_def eval_defs)

text \<open>
  C3, amended: on the tree with window offset (100, 200), a child with role AXButton
  and box (0, 0, 10, 10) and a child with role AXTextArea and box (20, 20, 40, 40), the
  clickable list has the single element with center (105, 205) and the text-input list
  has the single element with center (130, 230).
\<close>

theorem example_tree_result:
  "extract_elements exact_float example_tree =
     Inr ([\<lparr>center = (105, 205), description = None, role_description = None\<rparr>],
          [\<lparr>center = (130, 230), description = None, role_description = None\<rparr>])"
  by (simp add: example_tree_def eval_defs)

subsection \<open>C4: one entry per qualifying node\<close>



subsection \<open>C5: pre-order and determinism\<close>



subsection \<open>C6: a malformed window offset\<close>

text \<open>
  C6: when the window offset cannot be read as two numbers (the key is missing, a
  component is not accepted by \<^verbatim>\<open>float\<close>, or there are fewer than two components), the
  extraction raises: KeyError, ValueError or IndexError. It returns no lists, so no
  offset is defaulted. "Can be parsed" is what \<^verbatim>\<open>float\<close> accepts.
\<close>

theorem malformed_origin_raises:
  assumes "\<not> origin_parses F t"
  shows "extract_elements F t = Inl KeyError \<or> extract_elements F t = Inl ValueError
       \<or> extract_elements F t = Inl IndexError"
  using assms
  by (auto simp: origin_parses_def extract_elements_def window_origin_def
      split: option.splits list.splits)

text \<open>A missing key, the offset \<^verbatim>\<open>abc,200\<close> and the offset \<^verbatim>\<open>100\<close>.\<close>

theorem malformed_origin_raises_witness:
  "\<not> origin_parses exact_float no_origin_tree
   \<and> extract_elements exact_float no_origin_tree = Inl KeyError
   \<and> \<not> origin_parses exact_float bad_origin_tree
   \<and> extract_elements exact_float bad_origin_tree = Inl ValueError
   \<and> \<not> origin_parses exact_float short_origin_tree
   \<and> extract_elements exact_float short_origin_tree = Inl IndexError"
proof -
  have h1: "\<not> origin_parses exact_float no_origin_tree"
    by (simp add: no_origin_tree_def eval_defs)
  have h2: "\<not> origin_parses exact_float bad_origin_tree"
    by (simp add: bad_origin_tree_def eval_defs)
  have h3: "\<not> origin_parses exact_float short_origin_tree"
    by (simp add: short_origin_tree_def eval_defs)
  have e1: "extract_elements exact_float no_origin_tree \<noteq> Inl ValueError"
    "extract_elements exact_float no_origin_tree \<noteq> Inl IndexError"
    by (simp_all add: no_origin_tree_def eval_defs)
  have e2: "extract_elements exact_float bad_origin_tree \<noteq> Inl KeyError"
    "extract_elements exact_float bad_origin_tree \<noteq> Inl IndexError"
    by (simp_all add: bad_origin_tree_def eval_defs)
  have e3: "extract_elements exact_float short_origin_tree \<noteq> Inl KeyError"
    "extract_elements exact_float short_origin_tree \<noteq> Inl ValueError"
    by (simp_all add: short_origin_tree_def eval_defs)
  show ?thesis
    using malformed_origin_raises[OF h1] malformed_origin_raises[OF h2]
      malformed_origin_raises[OF h3] h1 h2 h3 e1 e2 e3
    by blast
qed

subsection \<open>C7: unrecognised and missing roles\<close>

text \<open>
  C7: a node whose role is none of AXButton, AXMenuButton and AXTextArea, or is missing,
  raises nothing and appends nothing, whatever its box is: traversing it is traversing
  its children with the lists unchanged.
\<close>

theorem unrecognized_role_skipped:
  assumes "r \<notin> {Some ''AXButton'', Some ''AXMenuButton'', Some ''AXTextArea''}"
  shows "traverse F wx wy (Node r bb d rd ap cs) acc = traverse_children F wx wy cs acc"
  using assms by (cases acc) auto

text \<open>
  A node without a role and with a one-entry box, wrapping an AXGroup that wraps a
  button with box (0, 0, 2, 2), at offset (0, 0): the button surfaces at (1, 1).
\<close>

theorem unrecognized_role_skipped_witness:
  "traverse exact_float 0 0
     (Node None (Some [7]) None None None
        [Node (Some ''AXGroup'') None None None None
           [Node (Some ''AXButton'') (Some [0, 0, 2, 2]) None None None []]]) ([], [])
   = Inr ([\<lparr>center = (1, 1), description = None, role_description = None\<rparr>], [])"
proof -
  let ?button = "Node (Some ''AXButton'') (Some [0, 0, 2, 2]) None None None []"
  let ?group = "Node (Some ''AXGroup'') None None None None [?button]"
  have h1: "None \<notin> {Some ''AXButton'', Some ''AXMenuButton'', Some ''AXTextArea''}"
    by simp
  have h2: "Some ''AXGroup'' \<notin> {Some ''AXButton'', Some ''AXMenuButton'', Some ''AXTextArea''}"
    by simp
  have "traverse exact_float 0 0 (Node None (Some [7]) None None None [?group]) ([], [])
      = traverse_children exact_float 0 0 [?group] ([], [])"
    by (rule unrecognized_role_skipped[OF h1])
  also have "\<dots> = Inr ([\<lparr>center = (1, 1), description = None, role_description = None\<rparr>], [])"
    by (simp add: make_element_def exact_float_def)
  finally show ?thesis .
qed

subsection \<open>C8: the typing tool\<close>

text \<open>
  C8: for every text and flag, \<^verbatim>\<open>type_text\<close> splits the text at the two-character
  sequence backslash, n: no piece contains that sequence and the pieces joined by it
  are the text again. It then carries out, in order and up to the first call that
  raises, the calls \<open>keystrokes\<close> lists: each piece typed, enter pressed after every piece
  but the last, and enter pressed after the last piece exactly when the flag is set.
  When no call raises, all of them are made and the result is Success.
\<close>

theorem type_text_keystrokes:
  "type_text raises text press_enter_after =
     (case perform raises
             (keystrokes (py_split [CHR 0x5C, CHR ''n''] text) press_enter_after) [] of
        (tr, None) \<Rightarrow> (''Success'', tr)
      | (tr, Some msg) \<Rightarrow> (''Error: '' @ msg, tr))
   \<and> type_text (\<lambda>tr e. None) text press_enter_after =
       (''Success'', keystrokes (py_split [CHR 0x5C, CHR ''n''] text) press_enter_after)
   \<and> join [CHR 0x5C, CHR ''n''] (py_split [CHR 0x5C, CHR ''n''] text) = text
   \<and> (\<forall>p \<in> set (py_split [CHR 0x5C, CHR ''n''] text). \<not> occurs [CHR 0x5C, CHR ''n''] p)"
proof -
  have ne: "[CHR 0x5C, CHR ''n''] \<noteq> []" by simp
  have j: "join [CHR 0x5C, CHR ''n''] (py_split [CHR 0x5C, CHR ''n''] text) = text"
    using join_split_from[OF ne, of "[]" "text"] by (simp add: py_split_def)
  have o: "\<forall>p \<in> set (py_split [CHR 0x5C, CHR ''n''] text). \<not> occurs [CHR 0x5C, CHR ''n''] p"
    using py_split_no_occurrence[OF ne] by blast
  have p: "type_text raises text press_enter_after =
     (case perform raises
             (keystrokes (py_split [CHR 0x5C, CHR ''n''] text) press_enter_after) [] of
        (tr, None) \<Rightarrow> (''Success'', tr)
      | (tr, Some msg) \<Rightarrow> (''Error: '' @ msg, tr))" for raises
    using type_text_perform[of raises "text" press_enter_after]
    by (simp only: backslash_n_def)
  have "type_text (\<lambda>tr e. None) text press_enter_after =
       (''Success'', keystrokes (py_split [CHR 0x5C, CHR ''n''] text) press_enter_after)"
    by (simp add: p perform_no_raise)
  with p j o show ?thesis by blast
qed

text \<open>
  Three runs: a text that ends in backslash-n, without the final enter; a text with a
  line feed character, which is not a separator; and a device on which pressing enter
  raises.
\<close>

theorem type_text_keystrokes_witness:
  "type_text (\<lambda>tr e. None) [CHR ''a'', CHR ''b'', CHR 0x5C, CHR ''n'', CHR ''c'', CHR 0x5C, CHR ''n'']
     False
     = (''Success'', [Typewrite ''ab'', Press ''enter'', Typewrite ''c'', Press ''enter'',
                      Typewrite []])
   \<and> type_text (\<lambda>tr e. None) [CHR ''a'', CHR 0x0A, CHR ''n'', CHR 0x5C, CHR ''n'', CHR ''c''] True
     = (''Success'', [Typewrite [CHR ''a'', CHR 0x0A, CHR ''n''], Press ''enter'',
                      Typewrite ''c'', Press ''enter''])
   \<and> type_text (\<lambda>tr e. if e = Press ''enter'' then Some ''boom'' else None)
        [CHR ''a'', CHR 0x5C, CHR ''n'', CHR ''c''] True
     = (''Error: boom'', [Typewrite ''a''])"
proof -
  let ?t1 = "[CHR ''a'', CHR ''b'', CHR 0x5C, CHR ''n'', CHR ''c'', CHR 0x5C, CHR ''n'']"
  let ?t2 = "[CHR ''a'', CHR 0x0A, CHR ''n'', CHR 0x5C, CHR ''n'', CHR ''c'']"
  let ?t3 = "[CHR ''a'', CHR 0x5C, CHR ''n'', CHR ''c'']"
  let ?r = "\<lambda>tr e. if e = Press ''enter'' then Some ''boom'' else None"
  have s1: "py_split [CHR 0x5C, CHR ''n''] ?t1 = [''ab'', ''c'', []]"
    by (simp add: py_split_def)
  have s2: "py_split [CHR 0x5C, CHR ''n''] ?t2 = [[CHR ''a'', CHR 0x0A, CHR ''n''], ''c'']"
    by (simp add: py_split_def)
  have s3: "py_split [CHR 0x5C, CHR ''n''] ?t3 = [''a'', ''c'']"
    by (simp add: py_split_def)
  show ?thesis
    using type_text_keystrokes[of "\<lambda>tr e. None" ?t1 False]
      type_text_keystrokes[of "\<lambda>tr e. None" ?t2 True]
      type_text_keystrokes[of ?r ?t3 True]
    by (simp add: s1 s2 s3 keystrokes_def)
qed

subsection \<open>C9: the traversal runs to completion\<close>

text \<open>
  The claim C9 as written says that the traversal of every finite tree runs to
  completion. The recursion of \<^verbatim>\<open>traverse\<close> is as deep as the tree and the program
  has no depth guard, so on a tree deeper than the interpreter's recursion limit the
  traversal stops with RecursionError. With all 1000 frames of the default limit still
  free, the tree of depth 1002 raises, although every node of it is well formed and the
  traversal on an unbounded stack would return its one button.
\<close>

theorem deep_tree_recursion_error_counterexample:
  "extract_elements_limited exact_float 1000 deep_tree = Inl RecursionError
   \<and> extract_elements exact_float deep_tree =
       Inr ([\<lparr>center = (1, 1), description = None, role_description = None\<rparr>], [])"
proof -
  have r: "Some ''AXWindow'' \<notin> {Some ''AXButton'', Some ''AXMenuButton'', Some ''AXTextArea''}"
    by simp
  have k: "(1000 :: nat) \<le> Suc 1000" by simp
  have "traverse_limited exact_float 0 0 1000 deep_tree ([], []) = Inl RecursionError"
    unfolding deep_tree_def by (rule wrapped_nest_recursion_error[OF r k])
  then have a: "extract_elements_limited exact_float 1000 deep_tree = Inl RecursionError"
    by (simp add: extract_elements_limited_def deep_tree_origin)
  have "traverse exact_float 0 0 deep_tree ([], []) =
      traverse exact_float 0 0
        (Node (Some ''AXButton'') (Some [0, 0, 2, 2]) None None None []) ([], [])"
    unfolding deep_tree_def by (rule traverse_wrapped_nest[OF r])
  with button_2_2 have "traverse exact_float 0 0 deep_tree ([], []) =
      Inr ([\<lparr>center = (1, 1), description = None, role_description = None\<rparr>], [])"
    by (simp only:)
  then have b: "extract_elements exact_float deep_tree =
      Inr ([\<lparr>center = (1, 1), description = None, role_description = None\<rparr>], [])"
    by (simp add: extract_elements_def deep_tree_origin)
  from a b show ?thesis by (rule conjI)
qed

text \<open>
  C9, amended: the traversal of a finite tree always terminates. When the window offset
  can be read, the box of every qualifying node has four entries whose sums with the
  offset do not overflow, and the depth of the tree is below the number of nested calls
  the interpreter still allows, the extraction runs through the whole tree and returns
  the two lists, the same as on an unbounded stack. On a tree deeper than the allowed
  number of nested calls it raises instead of returning.
\<close>

theorem extraction_completes_within_limit:
  assumes "window_origin F t = Inr (wx, wy)"
    and "\<forall>n \<in> set (preorder t). qualifies_button n \<or> qualifies_text_area n \<longrightarrow> box_ok F wx wy n"
  shows "(depth t < frames \<longrightarrow>
            (\<exists>bs ts. extract_elements_limited F frames t = Inr (bs, ts)
                   \<and> extract_elements F t = Inr (bs, ts)))
       \<and> (frames < depth t \<longrightarrow> (\<exists>e. extract_elements_limited F frames t = Inl e))"
proof (intro conjI impI)
  assume d: "depth t < frames"
  have em: "\<forall>n \<in> set (preorder t). qualifies_button n \<or> qualifies_text_area n
      \<longrightarrow> (\<exists>e. emitted F wx wy n e)"
  proof (intro ballI impI)
    fix n
    assume "n \<in> set (preorder t)" "qualifies_button n \<or> qualifies_text_area n"
    with assms(2) have "box_ok F wx wy n" by blast
    then show "\<exists>e. emitted F wx wy n e" by (rule box_ok_emitted)
  qed
  have "\<exists>acc'. traverse F wx wy t ([], []) = Inr acc'"
    using em by (rule traverse_completes(1))
  then obtain acc' where "traverse F wx wy t ([], []) = Inr acc'" ..
  then obtain bs ts where r: "traverse F wx wy t ([], []) = Inr (bs, ts)"
    by (cases acc') simp
  have l: "traverse_limited F wx wy frames t ([], []) = Inr (bs, ts)"
    by (simp only: traverse_limited_eq(1)[OF d] r)
  have "extract_elements_limited F frames t = Inr (bs, ts)"
    using l by (simp add: extract_elements_limited_def assms(1))
  moreover have "extract_elements F t = Inr (bs, ts)"
    using r by (simp add: extract_elements_def assms(1))
  ultimately show "\<exists>bs ts. extract_elements_limited F frames t = Inr (bs, ts)
      \<and> extract_elements F t = Inr (bs, ts)"
    by blast
next
  assume "frames < depth t"
  then have "\<exists>e. traverse_limited F wx wy frames t ([], []) = Inl e"
    by (rule too_deep(1))
  then obtain e where "traverse_limited F wx wy frames t ([], []) = Inl e" ..
  then have "extract_elements_limited F frames t = Inl e"
    by (simp add: extract_elements_limited_def assms(1))
  then show "\<exists>e. extract_elements_limited F frames t = Inl e" by blast
qed

text \<open>The nested tree has depth 4: five frames suffice, three do not.\<close>

theorem extraction_completes_within_limit_witness:
  "(\<exists>bs ts. extract_elements_limited exact_float 5 nested_tree = Inr (bs, ts)
          \<and> extract_elements exact_float nested_tree = Inr (bs, ts))
   \<and> (\<exists>e. extract_elements_limited exact_float 3 nested_tree = Inl e)"
proof -
  have h: "\<forall>n \<in> set (preorder nested_tree). qualifies_button n \<or> qualifies_text_area n
             \<longrightarrow> box_ok exact_float 100 200 n"
    by (simp add: nested_tree_def box_ok_def eval_defs)
  have d5: "depth nested_tree < 5" and d3: "3 < depth nested_tree"
    by (simp_all add: nested_tree_depth)
  show ?thesis
    using extraction_completes_within_limit[OF nested_tree_origin h, of 5]
      extraction_completes_within_limit[OF nested_tree_origin h, of 3] d5 d3
    by blast
qed

subsection \<open>C10: further components of the window offset\<close>

text \<open>
  C10: when the offset string has more than two comma-separated components and
  \<^verbatim>\<open>float\<close> accepts the first two, reading the offset does not fail: the offset is the
  first two components and the extraction is the traversal with that offset; the
  remaining components are never looked at.
\<close>

theorem extra_origin_components_ignored:
  assumes "absolute_position t = Some s" and "py_split '','' s = c0 # c1 # rest"
    and "to_float F c0 = Some wx" and "to_float F c1 = Some wy"
  shows "window_origin F t = Inr (wx, wy)
       \<and> extract_elements F t = traverse F wx wy t ([], [])"
  using assms by (simp add: extract_elements_def window_origin_def)

text \<open>The offset \<^verbatim>\<open>100,200,300,x\<close>, whose last component is not even a number.\<close>

theorem extra_origin_components_ignored_witness:
  "window_origin exact_float long_origin_tree = Inr (100, 200)
   \<and> extract_elements exact_float long_origin_tree =
       Inr ([\<lparr>center = (105, 205), description = None, role_description = None\<rparr>], [])"
proof -
  have h1: "absolute_position long_origin_tree = Some ''100,200,300,x''"
    by (simp add: long_origin_tree_def)
  have h2: "py_split '','' ''100,200,300,x'' = ''100'' # ''200'' # [''300'', ''x'']"
    by (simp add: py_split_def)
  have h3: "to_float exact_float ''100'' = Some 100"
    by (simp add: eval_defs)
  have h4: "to_float exact_float ''200'' = Some 200"
    by (simp add: eval_defs)
  have "traverse exact_float 100 200 long_origin_tree ([], []) =
      Inr ([\<lparr>center = (105, 205), description = None, role_description = None\<rparr>], [])"
    by (simp add: long_origin_tree_def make_element_def exact_float_def)
  then show ?thesis
    using extra_origin_components_ignored[OF h1 h2 h3 h4] by simp
qed

end
